theory Spec2Isabelle
  imports Main
begin

section \<open>Messages\<close>

text \<open>
  The wire format \<^verbatim>\<open>Message\<close> of \<^verbatim>\<open>process.go\<close>. Go strings are byte sequences, so a
  field is a \<^typ>\<open>string\<close> (a list of 8-bit characters). The field \<^verbatim>\<open>Id\<close> is written
  \<open>Id_msg\<close>, since \<open>Id\<close> is the identity relation of HOL.
\<close>

record Message =
  Id_msg :: string
  Kind :: string
  Body :: string

section \<open>Go integers\<close>

text \<open>
  Go's \<^verbatim>\<open>int\<close> is taken at its 64-bit width. A value is an \<^typ>\<open>int\<close> in the range
  \<open>-2^63 .. 2^63 - 1\<close>, and arithmetic wraps around: \<open>int64_wrap\<close> is the two's complement
  reading of the low 64 bits.
\<close>

definition int64_wrap :: "int \<Rightarrow> int" where
  "int64_wrap x = (x + 2 ^ 63) mod 2 ^ 64 - 2 ^ 63"

section \<open>The output limiter\<close>

definition msgLimit :: int where
  "msgLimit = 1000"

text \<open>
  What the goroutine of \<^verbatim>\<open>limiter\<close> sends: a message on \<^verbatim>\<open>dest\<close> or a message on
  \<^verbatim>\<open>kill\<close>. The order of the sends is the order of the list.
\<close>

datatype event = Dest Message | KillReq Message

text \<open>How the goroutine ends: by its \<^verbatim>\<open>return\<close>, or because \<^verbatim>\<open>ch\<close> was closed.\<close>

datatype exit = Returned | ChanClosed

text \<open>
  One pass through the body of the \<^verbatim>\<open>for m := range ch\<close> loop, with the limit \<open>L\<close> and the
  counter \<open>n\<close>: the sends, the counter after the pass, and whether the goroutine returned.
  \<^verbatim>\<open>
    switch {
    case n < msgLimit || m.Kind == "end":
        dest <- m
        if m.Kind == "end" { return }
    case n == msgLimit:
        kill <- &Message{Id: m.Id, Kind: "kill"}
    }
    n++
  \<close>
\<close>

definition limiter_body :: "int \<Rightarrow> int \<Rightarrow> Message \<Rightarrow> event list \<times> int \<times> bool" where
  "limiter_body L n m =
     (if n < L \<or> Kind m = ''end'' then
        (if Kind m = ''end'' then ([Dest m], n, True)
         else ([Dest m], int64_wrap (n + 1), False))
      else if n = L then
        ([KillReq \<lparr>Id_msg = Id_msg m, Kind = ''kill'', Body = ''''\<rparr>], int64_wrap (n + 1), False)
      else ([], int64_wrap (n + 1), False))"

text \<open>
  The loop over the messages sent to \<^verbatim>\<open>ch\<close>, in order; the end of the list is the close of
  \<^verbatim>\<open>ch\<close>. After a \<^verbatim>\<open>return\<close> nothing more is received.
\<close>

fun limiter_loop :: "int \<Rightarrow> int \<Rightarrow> Message list \<Rightarrow> event list \<times> int \<times> exit" where
  "limiter_loop L n [] = ([], n, ChanClosed)"
| "limiter_loop L n (m # ms) =
     (case limiter_body L n m of
        (es, n', stop) \<Rightarrow>
          if stop then (es, n', Returned)
          else (case limiter_loop L n' ms of (es', r) \<Rightarrow> (es @ es', r)))"

definition limiter :: "Message list \<Rightarrow> event list \<times> int \<times> exit" where
  "limiter ms = limiter_loop msgLimit 0 ms"

section \<open>The identity source\<close>

text \<open>
  The goroutine started by \<^verbatim>\<open>init\<close> sends \<open>i\<close> on \<^verbatim>\<open>uniq\<close> and increments it, forever:
  \<^verbatim>\<open>for i := 0; ; i++ { uniq <- i }\<close>. The state of the generator is the value it sends
  next; a receive \<^verbatim>\<open><-uniq\<close> yields that value and the state after the increment.
\<close>

definition uniq_init :: int where
  "uniq_init = 0"

definition uniq_recv :: "int \<Rightarrow> int \<times> int" where
  "uniq_recv i = (i, int64_wrap (i + 1))"

text \<open>The values of the first \<open>k\<close> receives, from the state \<open>i\<close>.\<close>

fun uniq_take :: "nat \<Rightarrow> int \<Rightarrow> int list" where
  "uniq_take 0 i = []"
| "uniq_take (Suc k) i = (case uniq_recv i of (v, i') \<Rightarrow> v # uniq_take k i')"

text \<open>The state of the generator after \<open>k\<close> receives.\<close>

fun uniq_after :: "nat \<Rightarrow> int \<Rightarrow> int" where
  "uniq_after 0 i = i"
| "uniq_after (Suc k) i = uniq_after k (snd (uniq_recv i))"

section \<open>The conversion of an integer to a string\<close>

text \<open>
  \<^verbatim>\<open>string(i)\<close> on an integer is a conversion of the Go language: the UTF-8 encoding of the
  code point \<open>i\<close>, and the encoding of U+FFFD where \<open>i\<close> is not a valid code point (negative,
  above U+10FFFF, or a surrogate half). The definitions follow \<^verbatim>\<open>intstring\<close> and
  \<^verbatim>\<open>encoderune\<close> of the Go runtime, where \<^verbatim>\<open>t2 | byte(r>>6)\<close> and the like are written
  with \<open>div\<close> and \<open>mod\<close> (the operands of each \<^verbatim>\<open>|\<close> have no bit in common).
\<close>

definition runeError :: int where
  "runeError = 0xFFFD"

definition maxRune :: int where
  "maxRune = 0x10FFFF"

definition encode3 :: "int \<Rightarrow> string" where
  "encode3 r =
     [char_of (0xE0 + r div 4096), char_of (0x80 + (r div 64) mod 64), char_of (0x80 + r mod 64)]"

definition encoderune :: "int \<Rightarrow> string" where
  "encoderune r =
     (if 0 \<le> r \<and> r \<le> 0x7F then [char_of r]
      else if 0 \<le> r \<and> r \<le> 0x7FF then
        [char_of (0xC0 + r div 64), char_of (0x80 + r mod 64)]
      else if r < 0 \<or> maxRune < r \<or> (0xD800 \<le> r \<and> r \<le> 0xDFFF) then encode3 runeError
      else if r \<le> 0xFFFF then encode3 r
      else
        [char_of (0xF0 + r div 262144), char_of (0x80 + (r div 4096) mod 64),
         char_of (0x80 + (r div 64) mod 64), char_of (0x80 + r mod 64)])"

text \<open>\<^verbatim>\<open>if int64(rune(v)) != v { v = runeError }\<close>: a value outside 32 bits is replaced first.\<close>

definition intstring :: "int \<Rightarrow> string" where
  "intstring v = encoderune (if - (2 ^ 31) \<le> v \<and> v < 2 ^ 31 then v else runeError)"

text \<open>
  The code point of a string that is the UTF-8 encoding of one code point, for stating which
  rune an id holds: the inverse reading of the four shapes of an encoding.
\<close>

definition cont_byte :: "char \<Rightarrow> bool" where
  "cont_byte c = (0x80 \<le> (of_char c :: int) \<and> (of_char c :: int) < 0xC0)"

fun rune_of :: "string \<Rightarrow> int option" where
  "rune_of [a] = (if (of_char a :: int) < 0x80 then Some (of_char a) else None)"
| "rune_of [a, b] =
     (if 0xC0 \<le> (of_char a :: int) \<and> (of_char a :: int) < 0xE0 \<and> cont_byte b
      then Some ((of_char a - 0xC0) * 64 + (of_char b - 0x80)) else None)"
| "rune_of [a, b, c] =
     (if 0xE0 \<le> (of_char a :: int) \<and> (of_char a :: int) < 0xF0 \<and> cont_byte b \<and> cont_byte c
      then Some ((of_char a - 0xE0) * 4096 + (of_char b - 0x80) * 64 + (of_char c - 0x80))
      else None)"
| "rune_of [a, b, c, d] =
     (if 0xF0 \<le> (of_char a :: int) \<and> (of_char a :: int) < 0xF8 \<and> cont_byte b \<and> cont_byte c \<and>
         cont_byte d
      then Some ((of_char a - 0xF0) * 262144 + (of_char b - 0x80) * 4096 +
                 (of_char c - 0x80) * 64 + (of_char d - 0x80))
      else None)"
| "rune_of _ = None"

section \<open>The output relay\<close>

text \<open>
  \<^verbatim>\<open>messageWriter\<close> holds an id, a kind and the channel \<^verbatim>\<open>out\<close>. The channel is the list of
  the messages sent on it so far, kept in the state; a byte slice is a \<^typ>\<open>string\<close>, and
  \<^verbatim>\<open>string(b)\<close> copies its bytes. \<^verbatim>\<open>Write\<close> returns \<^verbatim>\<open>len(b)\<close> and the error
  \<^verbatim>\<open>nil\<close>. A Go \<^verbatim>\<open>error\<close> is a \<^typ>\<open>string option\<close>: \<open>None\<close> is \<^verbatim>\<open>nil\<close>
  and \<open>Some t\<close> an error whose \<^verbatim>\<open>Error()\<close> is \<open>t\<close>.
\<close>

type_synonym error = "string option"

record messageWriter =
  id_mw :: string
  kind :: string

definition Write :: "messageWriter \<Rightarrow> string \<Rightarrow> Message list \<Rightarrow> Message list \<times> int \<times> error" where
  "Write w b out_ch =
     (out_ch @ [\<lparr>Id_msg = id_mw w, Kind = kind w, Body = b\<rparr>], int (length b), None)"

section \<open>The process supervisor\<close>

text \<open>
  \<^verbatim>\<open>exec.Cmd\<close> as far as \<^verbatim>\<open>process.go\<close> sets it: \<^verbatim>\<open>exec.Command(name, arg...)\<close> stores
  the name as \<^verbatim>\<open>Path\<close> and the name followed by the arguments as \<^verbatim>\<open>Args\<close>.
\<close>

record Cmd =
  Path :: string
  Args :: "string list"
  Dir :: string
  Stdout :: messageWriter
  Stderr :: messageWriter

text \<open>
  \<^verbatim>\<open>Process\<close>: its id and the command stored by \<^verbatim>\<open>start\<close> (\<open>None\<close> is the nil pointer). The
  channels \<^verbatim>\<open>out\<close> and \<^verbatim>\<open>Done\<close> are in the state below.
\<close>

record Process =
  id_proc :: string
  run :: "Cmd option"

text \<open>The child of the operating system, and where the goroutine \<^verbatim>\<open>p.wait()\<close> stands.\<close>

datatype child_state = NoChild | Running | Signalled | Exited error

datatype wait_pc = W_None | W_Waiting | W_Ending error | W_Closing | W_Finished

text \<open>
  The state of one call of \<^verbatim>\<open>StartProcess\<close> and of what follows it: the messages sent on
  \<^verbatim>\<open>out\<close> in order, whether \<^verbatim>\<open>out\<close> is closed, the commands the operating system has
  started, the child, the goroutine of \<^verbatim>\<open>wait\<close>, and whether \<^verbatim>\<open>Done\<close> is closed.
\<close>

record life =
  out :: "Message list"
  out_closed :: bool
  spawned :: "Cmd list"
  child :: child_state
  waiter :: wait_pc
  Done :: bool

definition init_life :: life where
  "init_life = \<lparr>out = [], out_closed = False, spawned = [], child = NoChild, waiter = W_None,
     Done = False\<rparr>"

text \<open>
  \<^verbatim>\<open>p.cmd(dir, args...)\<close> reads \<^verbatim>\<open>args[0]\<close> and \<^verbatim>\<open>args[1:]\<close>; it takes them here as the
  head \<open>name\<close> and the tail \<open>arg\<close> of a list that \<^verbatim>\<open>start\<close> has found non-empty.
\<close>

definition cmd :: "Process \<Rightarrow> string option \<Rightarrow> string \<Rightarrow> string list \<Rightarrow> Cmd" where
  "cmd p dir name arg =
     \<lparr>Path = name, Args = name # arg,
      Dir = (case dir of None \<Rightarrow> [] | Some d \<Rightarrow> d),
      Stdout = \<lparr>id_mw = id_proc p, kind = ''stdout''\<rparr>,
      Stderr = \<lparr>id_mw = id_proc p, kind = ''stderr''\<rparr>\<rparr>"

text \<open>
  \<^verbatim>\<open>p.start(dir, args)\<close>. The parameter \<open>os\<close> is the operating system: the result of
  \<^verbatim>\<open>cmd.Start()\<close> for a command. A started command is recorded in \<open>spawned\<close>.
\<close>

definition start ::
  "(Cmd \<Rightarrow> error) \<Rightarrow> Process \<Rightarrow> string option \<Rightarrow> string list \<Rightarrow> life \<Rightarrow> error \<times> Process \<times> life" where
  "start os p dir args s =
     (case args of
        [] \<Rightarrow> (Some ''No arguments found'', p, s)
      | name # arg \<Rightarrow>
          (let c = cmd p dir name arg in
           case os c of
             Some e \<Rightarrow> (Some e, p, s)
           | None \<Rightarrow> (None, p\<lparr>run := Some c\<rparr>, s\<lparr>spawned := spawned s @ [c], child := Running\<rparr>)))"

text \<open>\<^verbatim>\<open>p.end(err)\<close> sends the \<^verbatim>\<open>end\<close> message; its body is empty for a nil error.\<close>

definition p_end :: "Process \<Rightarrow> error \<Rightarrow> life \<Rightarrow> life" where
  "p_end p err s =
     s\<lparr>out := out s @
        [\<lparr>Id_msg = id_proc p, Kind = ''end'', Body = (case err of None \<Rightarrow> [] | Some t \<Rightarrow> t)\<rparr>]\<rparr>"

text \<open>
  \<^verbatim>\<open>StartProcess(dir, args, out)\<close>, from the state \<open>u\<close> of the identity source: the handle
  (\<open>None\<close> is \<^verbatim>\<open>nil\<close>), the state, and the identity source after the receive.
  \<^verbatim>\<open>go p.wait()\<close> puts the goroutine into \<^verbatim>\<open>p.run.Wait()\<close>.
\<close>

definition StartProcess ::
  "(Cmd \<Rightarrow> error) \<Rightarrow> string option \<Rightarrow> string list \<Rightarrow> int \<Rightarrow> Process option \<times> life \<times> int" where
  "StartProcess os dir args u =
     (case uniq_recv u of
        (i, u') \<Rightarrow>
          (case start os \<lparr>id_proc = intstring i, run = None\<rparr> dir args init_life of
             (Some e, p, s) \<Rightarrow> (None, (p_end p (Some e) s)\<lparr>out_closed := True\<rparr>, u')
           | (None, p, s) \<Rightarrow> (Some p, s\<lparr>waiter := W_Waiting\<rparr>, u')))"

text \<open>
  What happens after a successful start, one action at a time, in any order the schedule
  gives. The child writes to its standard output and error, which \<^verbatim>\<open>os/exec\<close> copies to the
  two writers of the command; the child exits; \<^verbatim>\<open>p.run.Wait()\<close> returns, which \<^verbatim>\<open>os/exec\<close>
  lets happen once the child has exited and the copying is complete, so no write follows it;
  \<^verbatim>\<open>wait\<close> calls \<^verbatim>\<open>p.end\<close>; \<^verbatim>\<open>wait\<close> closes \<^verbatim>\<open>Done\<close>. An action that cannot happen in
  a state leaves it as it is.
\<close>

datatype action =
  WriteStdout string | WriteStderr string | ChildExit error | WaitReturns | WaitEnd | WaitClose

fun step :: "Process \<Rightarrow> action \<Rightarrow> life \<Rightarrow> life" where
  "step p (WriteStdout b) s =
     (case (waiter s, run p) of
        (W_Waiting, Some c) \<Rightarrow> s\<lparr>out := fst (Write (Stdout c) b (out s))\<rparr>
      | _ \<Rightarrow> s)"
| "step p (WriteStderr b) s =
     (case (waiter s, run p) of
        (W_Waiting, Some c) \<Rightarrow> s\<lparr>out := fst (Write (Stderr c) b (out s))\<rparr>
      | _ \<Rightarrow> s)"
| "step p (ChildExit e) s =
     (if child s = Running \<or> child s = Signalled then s\<lparr>child := Exited e\<rparr> else s)"
| "step p WaitReturns s =
     (case (waiter s, child s) of
        (W_Waiting, Exited e) \<Rightarrow> s\<lparr>waiter := W_Ending e\<rparr>
      | _ \<Rightarrow> s)"
| "step p WaitEnd s =
     (case waiter s of
        W_Ending e \<Rightarrow> (p_end p e s)\<lparr>waiter := W_Closing\<rparr>
      | _ \<Rightarrow> s)"
| "step p WaitClose s =
     (if waiter s = W_Closing then s\<lparr>Done := True, waiter := W_Finished\<rparr> else s)"

fun run_schedule :: "Process \<Rightarrow> action list \<Rightarrow> life \<Rightarrow> life" where
  "run_schedule p [] s = s"
| "run_schedule p (a # as) s = run_schedule p as (step p a s)"

text \<open>
  \<^verbatim>\<open>p.run.Process.Kill()\<close> signals a running child; on a child that has exited it returns an
  error, which \<^verbatim>\<open>Kill\<close> ignores.
\<close>

definition os_kill :: "life \<Rightarrow> life" where
  "os_kill s = (if child s = Running then s\<lparr>child := Signalled\<rparr> else s)"

text \<open>
  \<^verbatim>\<open><-p.Done\<close> returns once \<^verbatim>\<open>Done\<close> is closed. Until then the caller is blocked while the
  schedule goes on; a schedule that ends with \<^verbatim>\<open>Done\<close> open leaves the caller blocked.
\<close>

datatype kill_result = Unblocked life "action list" | StillBlocked life | NilDereference

fun await_Done :: "Process \<Rightarrow> action list \<Rightarrow> life \<Rightarrow> kill_result" where
  "await_Done p [] s = (if Done s then Unblocked s [] else StillBlocked s)"
| "await_Done p (a # as) s =
     (if Done s then Unblocked s (a # as) else await_Done p as (step p a s))"

text \<open>
  \<^verbatim>\<open>p.Kill()\<close>, called when the schedule \<open>acts\<close> is still to come: the state in which it
  returns and the rest of the schedule. A handle whose \<^verbatim>\<open>run\<close> is nil makes
  \<^verbatim>\<open>p.run.Process\<close> a nil dereference.
\<close>

fun Kill :: "Process option \<Rightarrow> action list \<Rightarrow> life \<Rightarrow> kill_result" where
  "Kill None acts s = Unblocked s acts"
| "Kill (Some p) acts s =
     (case run p of
        None \<Rightarrow> NilDereference
      | Some c \<Rightarrow> await_Done p acts (os_kill s))"

section \<open>Invariants of a started process\<close>

text \<open>
  Predicates for the proofs below. A trace without an \<^verbatim>\<open>end\<close> message; a trace whose last
  message is its only \<^verbatim>\<open>end\<close> message; a handle whose command writes under the id of the
  process with the kinds \<^verbatim>\<open>stdout\<close> and \<^verbatim>\<open>stderr\<close>, as \<^verbatim>\<open>cmd\<close> builds it; a child that has
  exited.
\<close>

definition no_end :: "Message list \<Rightarrow> bool" where
  "no_end ms = list_all (\<lambda>m. Kind m \<noteq> ''end'') ms"

definition ended :: "Message list \<Rightarrow> bool" where
  "ended ms = (ms \<noteq> [] \<and> Kind (last ms) = ''end'' \<and> no_end (butlast ms))"

definition wired :: "Process \<Rightarrow> bool" where
  "wired p =
     (case run p of
        None \<Rightarrow> False
      | Some c \<Rightarrow> Stdout c = \<lparr>id_mw = id_proc p, kind = ''stdout''\<rparr> \<and>
                  Stderr c = \<lparr>id_mw = id_proc p, kind = ''stderr''\<rparr>)"

fun is_exited :: "child_state \<Rightarrow> bool" where
  "is_exited (Exited e) = True"
| "is_exited _ = False"

text \<open>
  What holds in every state after a successful start: every message on \<^verbatim>\<open>out\<close> carries the
  id of the process, \<^verbatim>\<open>out\<close> is open, and the trace, the child and \<^verbatim>\<open>Done\<close> fit the place
  where the goroutine of \<^verbatim>\<open>wait\<close> stands.
\<close>

definition life_inv :: "Process \<Rightarrow> life \<Rightarrow> bool" where
  "life_inv p s =
     (list_all (\<lambda>m. Id_msg m = id_proc p) (out s) \<and> \<not> out_closed s \<and>
      (case waiter s of
         W_None \<Rightarrow> False
       | W_Waiting \<Rightarrow> \<not> Done s \<and> no_end (out s) \<and> child s \<noteq> NoChild
       | W_Ending e \<Rightarrow> \<not> Done s \<and> no_end (out s) \<and> child s = Exited e
       | W_Closing \<Rightarrow> \<not> Done s \<and> ended (out s) \<and> is_exited (child s)
       | W_Finished \<Rightarrow> Done s \<and> ended (out s) \<and> is_exited (child s)))"

section \<open>Properties of the limiter\<close>

lemma int64_wrap_id: "- (2 ^ 63) \<le> x \<Longrightarrow> x < 2 ^ 63 \<Longrightarrow> int64_wrap x = x"
  by (simp add: int64_wrap_def)

lemma limiter_loop_forward:
  "0 \<le> n \<Longrightarrow> n + int (length ms) \<le> L \<Longrightarrow> n + int (length ms) < 2 ^ 63 \<Longrightarrow>
   \<forall>m \<in> set ms. Kind m \<noteq> ''end'' \<Longrightarrow>
   limiter_loop L n (ms @ rest) =
     (case limiter_loop L (n + int (length ms)) rest of (es, r) \<Rightarrow> (map Dest ms @ es, r))"
proof (induction ms arbitrary: n)
  case Nil
  then show ?case by simp
next
  case (Cons m ms)
  have w: "int64_wrap (n + 1) = n + 1"
    using Cons.prems by (intro int64_wrap_id) auto
  have b: "limiter_body L n m = ([Dest m], n + 1, False)"
    using Cons.prems by (simp add: limiter_body_def w)
  have e: "n + 1 + int (length ms) = n + int (length (m # ms))"
    by simp
  have "limiter_loop L (n + 1) (ms @ rest) =
     (case limiter_loop L (n + 1 + int (length ms)) rest of (es, r) \<Rightarrow> (map Dest ms @ es, r))"
    using Cons.prems by (intro Cons.IH) auto
  then show ?case
    unfolding e by (simp add: b split: prod.splits)
qed

lemma limiter_loop_drop:
  "L < n \<Longrightarrow> n + int (length ms) < 2 ^ 63 \<Longrightarrow> 0 \<le> L \<Longrightarrow>
   \<forall>m \<in> set ms. Kind m \<noteq> ''end'' \<Longrightarrow>
   limiter_loop L n (ms @ rest) = limiter_loop L (n + int (length ms)) rest"
proof (induction ms arbitrary: n)
  case Nil
  then show ?case by simp
next
  case (Cons m ms)
  have w: "int64_wrap (n + 1) = n + 1"
    using Cons.prems by (intro int64_wrap_id) auto
  have b: "limiter_body L n m = ([], n + 1, False)"
    using Cons.prems by (simp add: limiter_body_def w)
  have e: "n + 1 + int (length ms) = n + int (length (m # ms))"
    by simp
  have "limiter_loop L (n + 1) (ms @ rest) = limiter_loop L (n + 1 + int (length ms)) rest"
    using Cons.prems by (intro Cons.IH) auto
  then show ?case
    unfolding e by (simp add: b split: prod.splits)
qed


lemma limiter_loop_no_end:
  assumes ne: "\<forall>m \<in> set ms. Kind m \<noteq> ''end''" and len: "length ms < 2 ^ 63"
  shows "limiter_loop (int L) 0 (ms @ rest) =
     (case limiter_loop (int L) (int (length ms)) rest of
        (es, r) \<Rightarrow>
          (map Dest (take L ms) @
           (if L < length ms
            then [KillReq \<lparr>Id_msg = Id_msg (ms ! L), Kind = ''kill'', Body = ''''\<rparr>] else []) @ es, r))"
proof (cases "L < length ms")
  case False
  then have "int (length ms) \<le> int L" by simp
  with ne len have "limiter_loop (int L) 0 (ms @ rest) =
     (case limiter_loop (int L) (0 + int (length ms)) rest of (es, r) \<Rightarrow> (map Dest ms @ es, r))"
    by (intro limiter_loop_forward) auto
  with False show ?thesis by simp
next
  case True
  define xs where "xs = take L ms"
  define ys where "ys = drop (Suc L) ms"
  have ms: "ms = xs @ (ms ! L) # ys"
    using True by (simp add: xs_def ys_def id_take_nth_drop)
  have lxs: "length xs = L" using True by (simp add: xs_def)
  have lys: "int L + 1 + int (length ys) = int (length ms)"
    using True by (simp add: ys_def)
  have nexs: "\<forall>m \<in> set xs. Kind m \<noteq> ''end''"
    using ne by (auto simp: xs_def dest: in_set_takeD)
  have neys: "\<forall>m \<in> set ys. Kind m \<noteq> ''end''"
    using ne by (auto simp: ys_def dest: in_set_dropD)
  have nem: "Kind (ms ! L) \<noteq> ''end''"
    using ne True by simp
  have L63: "int L + 1 < 2 ^ 63"
    using True len by simp
  have 1: "limiter_loop (int L) 0 (xs @ ((ms ! L) # ys @ rest)) =
     (case limiter_loop (int L) (0 + int (length xs)) ((ms ! L) # ys @ rest) of
        (es, r) \<Rightarrow> (map Dest xs @ es, r))"
    using nexs L63 by (intro limiter_loop_forward) (auto simp: lxs)
  have w: "int64_wrap (int L + 1) = int L + 1"
    using L63 by (intro int64_wrap_id) auto
  have b: "limiter_body (int L) (int L) (ms ! L) =
     ([KillReq \<lparr>Id_msg = Id_msg (ms ! L), Kind = ''kill'', Body = ''''\<rparr>], int L + 1, False)"
    using nem by (simp add: limiter_body_def w)
  have 2: "limiter_loop (int L) (int L + 1) (ys @ rest) =
     limiter_loop (int L) (int L + 1 + int (length ys)) rest"
    using neys len lys by (intro limiter_loop_drop) auto
  have "limiter_loop (int L) 0 (ms @ rest) = limiter_loop (int L) 0 (xs @ ((ms ! L) # ys @ rest))"
    by (subst ms) simp
  also have "\<dots> = (case limiter_loop (int L) (int (length ms)) rest of
        (es, r) \<Rightarrow>
          (map Dest xs @ [KillReq \<lparr>Id_msg = Id_msg (ms ! L), Kind = ''kill'', Body = ''''\<rparr>] @ es, r))"
    unfolding 1 by (simp add: lxs b 2 lys split: prod.splits)
  finally show ?thesis
    using True by (simp add: xs_def)
qed

text \<open>The same for \<^verbatim>\<open>limiter\<close> itself, whose limit is \<^verbatim>\<open>msgLimit\<close>.\<close>

lemma limiter_msgLimit:
  assumes "\<forall>m \<in> set ms. Kind m \<noteq> ''end''" and "length ms < 2 ^ 63"
  shows "limiter (ms @ rest) =
     (case limiter_loop msgLimit (int (length ms)) rest of
        (es, r) \<Rightarrow>
          (map Dest (take 1000 ms) @
           (if 1000 < length ms
            then [KillReq \<lparr>Id_msg = Id_msg (ms ! 1000), Kind = ''kill'', Body = ''''\<rparr>] else []) @
           es, r))"
  using limiter_loop_no_end [OF assms, of 1000 rest] by (simp add: limiter_def msgLimit_def)

text \<open>
  Claim C2. A limiter with cap \<open>L\<close> is fed more than \<open>L\<close> messages, none of kind \<^verbatim>\<open>end\<close>,
  and then an \<^verbatim>\<open>end\<close> message. In order, it forwards the first \<open>L\<close> messages to the
  destination, sends one \<^verbatim>\<open>kill\<close> message with the id of the \<open>(L+1)\<close>-th message on the kill
  stream, drops every later message without a send, and forwards the \<^verbatim>\<open>end\<close> message; then
  it returns. The counter is a 64-bit integer: the sequence is shorter than \<open>2^63\<close>
  messages, so that the counter does not wrap.
\<close>

theorem limiter_over_limit:
  assumes "L < length ms" and "length ms < 2 ^ 63"
    and "\<forall>m \<in> set ms. Kind m \<noteq> ''end''" and "Kind e = ''end''"
  shows "limiter_loop (int L) 0 (ms @ [e]) =
     (map Dest (take L ms) @
      [KillReq \<lparr>Id_msg = Id_msg (ms ! L), Kind = ''kill'', Body = ''''\<rparr>, Dest e],
      int (length ms), Returned)"
  using assms by (simp add: limiter_loop_no_end limiter_body_def)

theorem limiter_over_limit_witness:
  "2 < length [\<lparr>Id_msg = ''p'', Kind = ''stdout'', Body = ''a''\<rparr>,
        \<lparr>Id_msg = ''p'', Kind = ''stderr'', Body = ''b''\<rparr>,
        \<lparr>Id_msg = ''p'', Kind = ''stdout'', Body = ''c''\<rparr>,
        \<lparr>Id_msg = ''p'', Kind = ''stdout'', Body = ''d''\<rparr>] \<and>
   limiter_loop 2 0
     ([\<lparr>Id_msg = ''p'', Kind = ''stdout'', Body = ''a''\<rparr>,
        \<lparr>Id_msg = ''p'', Kind = ''stderr'', Body = ''b''\<rparr>,
        \<lparr>Id_msg = ''p'', Kind = ''stdout'', Body = ''c''\<rparr>,
        \<lparr>Id_msg = ''p'', Kind = ''stdout'', Body = ''d''\<rparr>] @
      [\<lparr>Id_msg = ''p'', Kind = ''end'', Body = ''''\<rparr>]) =
     ([Dest \<lparr>Id_msg = ''p'', Kind = ''stdout'', Body = ''a''\<rparr>,
       Dest \<lparr>Id_msg = ''p'', Kind = ''stderr'', Body = ''b''\<rparr>,
       KillReq \<lparr>Id_msg = ''p'', Kind = ''kill'', Body = ''''\<rparr>,
       Dest \<lparr>Id_msg = ''p'', Kind = ''end'', Body = ''''\<rparr>], 4, Returned)"
  using limiter_over_limit [of 2 "[\<lparr>Id_msg = ''p'', Kind = ''stdout'', Body = ''a''\<rparr>,
        \<lparr>Id_msg = ''p'', Kind = ''stderr'', Body = ''b''\<rparr>,
        \<lparr>Id_msg = ''p'', Kind = ''stdout'', Body = ''c''\<rparr>,
        \<lparr>Id_msg = ''p'', Kind = ''stdout'', Body = ''d''\<rparr>]"
      "\<lparr>Id_msg = ''p'', Kind = ''end'', Body = ''''\<rparr>"]
  by simp

text \<open>
  Claim C8, as amended. After a message that is not of kind \<^verbatim>\<open>end\<close> the counter is
  incremented (Go's \<^verbatim>\<open>n++\<close>) and the loop goes on, whichever branch handled the message:
  forward, kill request or drop. On an \<^verbatim>\<open>end\<close> message the limiter forwards the message and
  returns with the counter as it was.
\<close>

theorem limiter_counter:
  "(Kind m \<noteq> ''end'' \<longrightarrow> snd (limiter_body L n m) = (int64_wrap (n + 1), False)) \<and>
   (Kind m = ''end'' \<longrightarrow> limiter_body L n m = ([Dest m], n, True))"
  by (simp add: limiter_body_def)

theorem limiter_counter_witness:
  "Kind \<lparr>Id_msg = ''p'', Kind = ''stdout'', Body = ''a''\<rparr> \<noteq> ''end'' \<and>
   snd (limiter_body msgLimit 1000 \<lparr>Id_msg = ''p'', Kind = ''stdout'', Body = ''a''\<rparr>) =
     (1001, False) \<and>
   Kind \<lparr>Id_msg = ''p'', Kind = ''end'', Body = ''''\<rparr> = ''end'' \<and>
   limiter_body msgLimit 1000 \<lparr>Id_msg = ''p'', Kind = ''end'', Body = ''''\<rparr> =
     ([Dest \<lparr>Id_msg = ''p'', Kind = ''end'', Body = ''''\<rparr>], 1000, True)"
  using limiter_counter [of "\<lparr>Id_msg = ''p'', Kind = ''stdout'', Body = ''a''\<rparr>" msgLimit 1000]
    limiter_counter [of "\<lparr>Id_msg = ''p'', Kind = ''end'', Body = ''''\<rparr>" msgLimit 1000]
  by (simp add: int64_wrap_def)

text \<open>
  Claim C8, as stated, fails on an \<^verbatim>\<open>end\<close> message: the limiter examines it, and the
  counter is not incremented after it.
\<close>

theorem limiter_counter_counterexample:
  "fst (snd (limiter_body msgLimit 0 \<lparr>Id_msg = ''p'', Kind = ''end'', Body = ''''\<rparr>)) \<noteq> 0 + 1"
  by (simp add: limiter_body_def)

text \<open>
  Claim C10. The input channel is closed after messages none of which is of kind \<^verbatim>\<open>end\<close>
  (fewer than \<open>2^63\<close>, so that the counter does not wrap). The goroutine of the limiter ends,
  and all it has sent is the first \<open>L\<close> messages to the destination and, when there were
  more than \<open>L\<close>, one \<^verbatim>\<open>kill\<close> message for the \<open>(L+1)\<close>-th: no \<^verbatim>\<open>end\<close> message, nothing
  after the close, no second \<^verbatim>\<open>kill\<close> message.
\<close>

theorem limiter_input_closed:
  assumes "\<forall>m \<in> set ms. Kind m \<noteq> ''end''" and "length ms < 2 ^ 63"
  shows "limiter_loop (int L) 0 ms =
     (map Dest (take L ms) @
      (if L < length ms
       then [KillReq \<lparr>Id_msg = Id_msg (ms ! L), Kind = ''kill'', Body = ''''\<rparr>] else []),
      int (length ms), ChanClosed)"
  using limiter_loop_no_end [OF assms, of L "[]"] by simp

theorem limiter_input_closed_witness:
  "list_all (\<lambda>m. Kind m \<noteq> ''end'')
     [\<lparr>Id_msg = ''p'', Kind = ''stdout'', Body = ''a''\<rparr>,
      \<lparr>Id_msg = ''p'', Kind = ''stderr'', Body = ''b''\<rparr>,
      \<lparr>Id_msg = ''p'', Kind = ''stdout'', Body = ''c''\<rparr>] \<and>
   limiter_loop 1 0
     [\<lparr>Id_msg = ''p'', Kind = ''stdout'', Body = ''a''\<rparr>,
      \<lparr>Id_msg = ''p'', Kind = ''stderr'', Body = ''b''\<rparr>,
      \<lparr>Id_msg = ''p'', Kind = ''stdout'', Body = ''c''\<rparr>] =
     ([Dest \<lparr>Id_msg = ''p'', Kind = ''stdout'', Body = ''a''\<rparr>,
       KillReq \<lparr>Id_msg = ''p'', Kind = ''kill'', Body = ''''\<rparr>], 3, ChanClosed)"
  using limiter_input_closed [of "[\<lparr>Id_msg = ''p'', Kind = ''stdout'', Body = ''a''\<rparr>,
        \<lparr>Id_msg = ''p'', Kind = ''stderr'', Body = ''b''\<rparr>,
        \<lparr>Id_msg = ''p'', Kind = ''stdout'', Body = ''c''\<rparr>]" 1]
  by simp

section \<open>Properties of the identity source and of the process ids\<close>

lemma uniq_after_eq: "0 \<le> i \<Longrightarrow> i + int k < 2 ^ 63 \<Longrightarrow> uniq_after k i = i + int k"
proof (induction k arbitrary: i)
  case 0
  then show ?case by simp
next
  case (Suc k)
  have w: "int64_wrap (i + 1) = i + 1"
    using Suc.prems by (intro int64_wrap_id) auto
  have "uniq_after k (i + 1) = i + 1 + int k"
    using Suc.prems by (intro Suc.IH) auto
  then show ?case by (simp add: uniq_recv_def w)
qed

lemma uniq_take_eq:
  "0 \<le> i \<Longrightarrow> i + int k < 2 ^ 63 \<Longrightarrow> uniq_take k i = map (\<lambda>j. i + int j) [0..<k]"
proof (induction k arbitrary: i)
  case 0
  then show ?case by simp
next
  case (Suc k)
  have w: "int64_wrap (i + 1) = i + 1"
    using Suc.prems by (intro int64_wrap_id) auto
  have "uniq_take k (i + 1) = map (\<lambda>j. i + 1 + int j) [0..<k]"
    using Suc.prems by (intro Suc.IH) auto
  then show ?case
    by (simp add: uniq_recv_def w upt_conv_Cons map_Suc_upt [symmetric] del: upt_Suc)
qed

lemma div_4096: "(v::int) div 4096 = v div 64 div 64"
  using zdiv_zmult2_eq [of 64 v 64] by simp

lemma div_262144: "(v::int) div 262144 = v div 64 div 64 div 64"
  using zdiv_zmult2_eq [of 64 v 4096] div_4096 [of v] zdiv_zmult2_eq [of 64 v 64]
    zdiv_zmult2_eq [of 64 "v div 64" 64] by simp

lemma split64: "\<exists>q r. (v::int) = q * 64 + r \<and> 0 \<le> r \<and> r < 64 \<and> v div 64 = q \<and> v mod 64 = r"
  by simp

lemma rune_of_intstring:
  assumes "0 \<le> v" and "v < 0xD800 \<or> 0xE000 \<le> v" and "v \<le> 0x10FFFF"
  shows "rune_of (intstring v) = Some v"
proof -
  obtain w r0 where v: "v = w * 64 + r0" "0 \<le> r0" "r0 < 64" "v div 64 = w" "v mod 64 = r0"
    using split64 [of v] by blast
  obtain x r1 where w: "w = x * 64 + r1" "0 \<le> r1" "r1 < 64" "w div 64 = x" "w mod 64 = r1"
    using split64 [of w] by blast
  obtain y r2 where x: "x = y * 64 + r2" "0 \<le> r2" "r2 < 64" "x div 64 = y" "x mod 64 = r2"
    using split64 [of x] by blast
  have d1: "v div 4096 = x" by (simp add: div_4096 v(4) w(4))
  have d2: "v div 262144 = y" by (simp add: div_262144 v(4) w(4) x(4))
  have d3: "v div 4096 mod 64 = r2" by (simp add: d1 x(5))
  have d4: "v div 64 mod 64 = r1" by (simp add: v(4) w(5))
  have e2: "w * 64 + r0 = v" using v(1) by simp
  have e3: "x * 4096 + r1 * 64 + r0 = v" using v(1) w(1) by simp
  have e4: "y * 262144 + r2 * 4096 + r1 * 64 + r0 = v" using v(1) w(1) x(1) by simp
  have ns: "\<not> (55296 \<le> v \<and> v \<le> 57343)" using assms(2) by linarith
  consider "v \<le> 0x7F" | "0x7F < v" "v \<le> 0x7FF" | "0x7FF < v" "v \<le> 0xFFFF" | "0xFFFF < v"
    by linarith
  then show ?thesis
  proof cases
    case 1
    with assms show ?thesis
      by (simp add: intstring_def encoderune_def)
  next
    case 2
    have c: "0 \<le> w" "w < 32" using 2 v(1-3) by linarith+
    have m: "(192 + w) mod 256 = 192 + w" "(128 + r0) mod 256 = 128 + r0"
      using c v(2,3) by simp_all
    from 2 assms(1) show ?thesis
      by (simp add: intstring_def encoderune_def cont_byte_def v(4,5) m c v(2,3) e2)
  next
    case 3
    have c: "0 \<le> x" "x < 16" using 3 v(1-3) w(1-3) by linarith+
    have m: "(224 + x) mod 256 = 224 + x" "(128 + r1) mod 256 = 128 + r1"
      "(128 + r0) mod 256 = 128 + r0"
      using c v(2,3) w(2,3) by simp_all
    from 3 assms show ?thesis
      by (simp add: intstring_def encoderune_def encode3_def maxRune_def cont_byte_def
          d1 d4 v(5) m c v(2,3) w(2,3) e3 ns)
  next
    case 4
    have c: "0 \<le> y" "y < 8" using 4 assms v(1-3) w(1-3) x(1-3) by linarith+
    have m: "(240 + y) mod 256 = 240 + y" "(128 + r2) mod 256 = 128 + r2"
      "(128 + r1) mod 256 = 128 + r1" "(128 + r0) mod 256 = 128 + r0"
      using c v(2,3) w(2,3) x(2,3) by simp_all
    from 4 assms show ?thesis
      by (simp add: intstring_def encoderune_def encode3_def maxRune_def cont_byte_def
          d2 d3 d4 v(5) m c v(2,3) w(2,3) x(2,3) e4 ns)
  qed
qed


lemma intstring_invalid:
  "v < 0 \<or> 0x10FFFF < v \<or> (0xD800 \<le> v \<and> v \<le> 0xDFFF) \<Longrightarrow> intstring v = encode3 runeError"
  by (auto simp: intstring_def encoderune_def maxRune_def runeError_def)

lemma rune_of_runeError: "rune_of (encode3 runeError) = Some 0xFFFD"
  by (simp add: encode3_def runeError_def cont_byte_def)

lemma rune_of_intstring_Some: "rune_of (intstring v) \<noteq> None"
proof (cases "v < 0 \<or> 0x10FFFF < v \<or> (0xD800 \<le> v \<and> v \<le> 0xDFFF)")
  case True
  then show ?thesis by (simp only: intstring_invalid rune_of_runeError) simp
next
  case False
  then have "rune_of (intstring v) = Some v"
    by (intro rune_of_intstring) auto
  then show ?thesis by simp
qed

lemma StartProcess_id:
  "StartProcess os dir args u = (h, s, u') \<Longrightarrow>
   u' = int64_wrap (u + 1) \<and>
   (case h of
      Some p \<Rightarrow> id_proc p = intstring u
    | None \<Rightarrow> out s \<noteq> [] \<and> Id_msg (last (out s)) = intstring u)"
  by (auto simp: StartProcess_def uniq_recv_def start_def init_life_def p_end_def Let_def
      split: list.splits option.splits)

text \<open>
  Claim C9, as amended. The generator yields the consecutive integers \<open>0, 1, 2, ...\<close> in
  order (below \<open>2^63\<close>). The call of \<^verbatim>\<open>StartProcess\<close> that receives \<open>k\<close> assigns the id
  \<^verbatim>\<open>string(k)\<close>, which is always the encoding of one rune; where \<open>k\<close> is a Unicode scalar
  value (below \<open>0xD800\<close>, or from \<open>0xE000\<close> to \<open>0x10FFFF\<close>) the code point of that rune is
  \<open>k\<close>. The first id is the string of the one byte 0, and the id for 10 is a line feed, not
  the decimal \<^verbatim>\<open>"10"\<close>.
\<close>

theorem process_id_rune:
  assumes "k < 0xD800 \<or> (0xE000 \<le> k \<and> k \<le> 0x10FFFF)"
    and "StartProcess os dir args (uniq_after k uniq_init) = (h, s, u')"
  shows "(\<forall>n. int n < 2 ^ 63 \<longrightarrow> uniq_take n uniq_init = map int [0..<n]) \<and>
    uniq_after k uniq_init = int k \<and>
    (case h of
       Some p \<Rightarrow> id_proc p = intstring (int k)
     | None \<Rightarrow> out s \<noteq> [] \<and> Id_msg (last (out s)) = intstring (int k)) \<and>
    rune_of (intstring (int k)) = Some (int k) \<and>
    (\<forall>v. rune_of (intstring v) \<noteq> None) \<and>
    intstring uniq_init = [char_of (0 :: int)] \<and>
    intstring 10 = [char_of (10 :: int)] \<and> intstring 10 \<noteq> ''10''"
proof -
  have k: "int (Suc k) < 2 ^ 63" using assms(1) by auto
  have t: "\<forall>n. int n < 2 ^ 63 \<longrightarrow> uniq_take n uniq_init = map int [0..<n]"
    using uniq_take_eq [of 0] by (simp add: uniq_init_def)
  have a: "uniq_after k uniq_init = int k"
    using uniq_after_eq [of 0 k] k by (simp add: uniq_init_def)
  have r: "rune_of (intstring (int k)) = Some (int k)"
    using assms(1) by (intro rune_of_intstring) auto
  have i: "case h of
       Some p \<Rightarrow> id_proc p = intstring (int k)
     | None \<Rightarrow> out s \<noteq> [] \<and> Id_msg (last (out s)) = intstring (int k)"
    using StartProcess_id [OF assms(2)] by (simp add: a split: option.splits)
  have z: "intstring uniq_init = [char_of (0 :: int)]"
    by (simp add: uniq_init_def intstring_def encoderune_def)
  have d: "intstring 10 = [char_of (10 :: int)] \<and> intstring 10 \<noteq> ''10''"
    by (simp add: intstring_def encoderune_def)
  from t a r i z d rune_of_intstring_Some show ?thesis by blast
qed

theorem process_id_rune_witness:
  "StartProcess (\<lambda>c. None) None [''ls''] (uniq_after 65 uniq_init) =
     (Some \<lparr>id_proc = ''A'',
        run = Some \<lparr>Path = ''ls'', Args = [''ls''], Dir = [],
          Stdout = \<lparr>id_mw = ''A'', kind = ''stdout''\<rparr>,
          Stderr = \<lparr>id_mw = ''A'', kind = ''stderr''\<rparr>\<rparr>\<rparr>,
      \<lparr>out = [], out_closed = False,
        spawned = [\<lparr>Path = ''ls'', Args = [''ls''], Dir = [],
          Stdout = \<lparr>id_mw = ''A'', kind = ''stdout''\<rparr>,
          Stderr = \<lparr>id_mw = ''A'', kind = ''stderr''\<rparr>\<rparr>],
        child = Running, waiter = W_Waiting, Done = False\<rparr>,
      66) \<and>
   rune_of ''A'' = Some 65 \<and> uniq_after 65 uniq_init = 65"
proof -
  have a: "uniq_after 65 uniq_init = 65"
    using uniq_after_eq [of 0 65] by (simp add: uniq_init_def)
  have A: "intstring 65 = ''A''"
    by (simp add: intstring_def encoderune_def char_of_def)
  have s: "StartProcess (\<lambda>c. None) None [''ls''] (uniq_after 65 uniq_init) =
     (Some \<lparr>id_proc = ''A'',
        run = Some \<lparr>Path = ''ls'', Args = [''ls''], Dir = [],
          Stdout = \<lparr>id_mw = ''A'', kind = ''stdout''\<rparr>,
          Stderr = \<lparr>id_mw = ''A'', kind = ''stderr''\<rparr>\<rparr>\<rparr>,
      \<lparr>out = [], out_closed = False,
        spawned = [\<lparr>Path = ''ls'', Args = [''ls''], Dir = [],
          Stdout = \<lparr>id_mw = ''A'', kind = ''stdout''\<rparr>,
          Stderr = \<lparr>id_mw = ''A'', kind = ''stderr''\<rparr>\<rparr>],
        child = Running, waiter = W_Waiting, Done = False\<rparr>,
      66)"
    by (simp add: a A StartProcess_def uniq_recv_def start_def init_life_def cmd_def
        int64_wrap_def Let_def)
  have r: "rune_of ''A'' = Some 65"
    using process_id_rune [OF _ s] by (simp add: A)
  show ?thesis
    by (intro conjI) (rule s r a)+
qed

text \<open>
  Claim C9, as stated, fails when the generator yields a surrogate half: the id of the call
  that receives 55296 (\<open>0xD800\<close>) is the encoding of U+FFFD, code point 65533.
\<close>

theorem process_id_rune_counterexample:
  "map_option (\<lambda>p. rune_of (id_proc p)) (fst (StartProcess (\<lambda>c. None) None [''ls''] 55296)) =
     Some (Some 65533)"
  by (simp add: StartProcess_def uniq_recv_def start_def init_life_def cmd_def
      intstring_def encoderune_def encode3_def runeError_def maxRune_def cont_byte_def Let_def)

text \<open>
  Claim C6 at its failing input. After 55296 receives the generator holds 55296; the next
  two calls of \<^verbatim>\<open>StartProcess\<close> both succeed, receive the distinct integers 55296 and
  55297, and return handles with the same id.
\<close>

theorem start_ids_collide:
  "(let u1 = uniq_after 55296 uniq_init;
        r1 = StartProcess (\<lambda>c. None) None [''ls''] u1;
        u2 = snd (snd r1);
        r2 = StartProcess (\<lambda>c. None) None [''ls''] u2
    in u1 = 55296 \<and> u2 = 55297 \<and> fst r1 \<noteq> None \<and> fst r2 \<noteq> None \<and>
       map_option id_proc (fst r1) = map_option id_proc (fst r2))"
proof -
  have a: "uniq_after 55296 uniq_init = 55296"
    using uniq_after_eq [of 0 55296] by (simp add: uniq_init_def)
  show ?thesis
    by (simp add: a Let_def StartProcess_def uniq_recv_def start_def init_life_def cmd_def
        int64_wrap_def intstring_def encoderune_def maxRune_def)
qed

text \<open>
  Claim C7. One call of \<^verbatim>\<open>Write\<close> with the bytes \<open>b\<close> sends exactly one message, with the id
  and the kind of the writer and the body \<open>b\<close>, whatever bytes \<open>b\<close> holds, and returns
  \<^verbatim>\<open>len(b)\<close> and \<^verbatim>\<open>nil\<close>. The two writers that \<^verbatim>\<open>cmd\<close> binds carry the id of the process
  and the kinds \<^verbatim>\<open>stdout\<close> and \<^verbatim>\<open>stderr\<close>.
\<close>

theorem Write_one_message:
  "Write w b ch = (ch @ [\<lparr>Id_msg = id_mw w, Kind = kind w, Body = b\<rparr>], int (length b), None) \<and>
   length (fst (Write w b ch)) = Suc (length ch) \<and>
   Stdout (cmd p dir name arg) = \<lparr>id_mw = id_proc p, kind = ''stdout''\<rparr> \<and>
   Stderr (cmd p dir name arg) = \<lparr>id_mw = id_proc p, kind = ''stderr''\<rparr> \<and>
   Write \<lparr>id_mw = ''7'', kind = ''stdout''\<rparr> [CHR ''a'', CHR 0x0A, CHR ''b'', CHR 0x0A] [] =
     ([\<lparr>Id_msg = ''7'', Kind = ''stdout'', Body = [CHR ''a'', CHR 0x0A, CHR ''b'', CHR 0x0A]\<rparr>],
      4, None)"
  by (simp add: Write_def cmd_def)

section \<open>Properties of the process supervisor\<close>

lemma StartProcess_handle:
  assumes "StartProcess os dir args u = (Some p, s0, u')"
  shows "wired p \<and> life_inv p s0 \<and> id_proc p = intstring u \<and> out s0 = [] \<and>
    u' = int64_wrap (u + 1)"
  using assms
  by (auto simp: StartProcess_def uniq_recv_def start_def init_life_def cmd_def wired_def
      life_inv_def no_end_def Let_def split: list.splits option.splits)

lemma step_inv:
  assumes "wired p" and "life_inv p s"
  shows "life_inv p (step p a s)"
proof (cases a)
  case (WriteStdout b)
  with assms show ?thesis
    by (auto simp: life_inv_def wired_def Write_def no_end_def split: wait_pc.splits option.splits)
next
  case (WriteStderr b)
  with assms show ?thesis
    by (auto simp: life_inv_def wired_def Write_def no_end_def split: wait_pc.splits option.splits)
next
  case (ChildExit e)
  with assms show ?thesis
    by (auto simp: life_inv_def split: wait_pc.splits)
next
  case WaitReturns
  with assms show ?thesis
    by (auto simp: life_inv_def split: wait_pc.splits child_state.splits)
next
  case WaitEnd
  with assms show ?thesis
    by (auto simp: life_inv_def p_end_def ended_def split: wait_pc.splits)
next
  case WaitClose
  with assms show ?thesis
    by (auto simp: life_inv_def split: wait_pc.splits)
qed

lemma run_schedule_inv:
  "wired p \<Longrightarrow> life_inv p s \<Longrightarrow> life_inv p (run_schedule p acts s)"
  by (induction acts arbitrary: s) (simp_all add: step_inv)

lemma run_schedule_append:
  "run_schedule p (xs @ ys) s = run_schedule p ys (run_schedule p xs s)"
  by (induction xs arbitrary: s) simp_all

lemma no_end_filter: "no_end ms \<Longrightarrow> filter (\<lambda>m. Kind m = ''end'') ms = []"
  by (induction ms) (simp_all add: no_end_def)

lemma ended_filter: "ended ms \<Longrightarrow> length (filter (\<lambda>m. Kind m = ''end'') ms) = 1"
proof -
  assume e: "ended ms"
  then have "ms = butlast ms @ [last ms]" by (simp add: ended_def)
  then have "filter (\<lambda>m. Kind m = ''end'') ms =
    filter (\<lambda>m. Kind m = ''end'') (butlast ms) @ filter (\<lambda>m. Kind m = ''end'') [last ms]"
    by (metis filter_append)
  with e show ?thesis by (simp add: ended_def no_end_filter)
qed

lemma life_inv_trace:
  assumes "life_inv p s"
  shows "length (filter (\<lambda>m. Kind m = ''end'') (out s)) \<le> 1"
    and "list_all (\<lambda>m. Id_msg m = id_proc p) (out s)"
    and "filter (\<lambda>m. Kind m = ''end'') (out s) \<noteq> [] \<Longrightarrow> out s \<noteq> [] \<and> Kind (last (out s)) = ''end''"
    and "Done s \<Longrightarrow> length (filter (\<lambda>m. Kind m = ''end'') (out s)) = 1"
    and "Done s \<Longrightarrow> is_exited (child s) \<and> waiter s = W_Finished"
  using assms
  by (auto simp: life_inv_def no_end_filter ended_filter ended_def split: wait_pc.splits)

lemma finish_schedule:
  assumes "life_inv p s"
  shows "Done (run_schedule p [ChildExit e, WaitReturns, WaitEnd, WaitClose] s)"
  using assms
  by (cases "child s") (auto simp: life_inv_def p_end_def split: wait_pc.splits)

lemma await_Done_Unblocked:
  "await_Done p acts s = Unblocked s' rest \<Longrightarrow>
   Done s' \<and> (\<exists>pre. acts = pre @ rest \<and> s' = run_schedule p pre s)"
proof (induction acts arbitrary: s)
  case Nil
  then show ?case by (auto split: if_splits)
next
  case (Cons a as)
  show ?case
  proof (cases "Done s")
    case True
    with Cons.prems show ?thesis by auto
  next
    case False
    with Cons.prems have "await_Done p as (step p a s) = Unblocked s' rest" by simp
    then have "Done s'" and "\<exists>pre. as = pre @ rest \<and> s' = run_schedule p pre (step p a s)"
      using Cons.IH by blast+
    then obtain pre where "as = pre @ rest" and "s' = run_schedule p pre (step p a s)" by blast
    then have "a # as = (a # pre) @ rest \<and> s' = run_schedule p (a # pre) s" by simp
    with \<open>Done s'\<close> show ?thesis by blast
  qed
qed

lemma Done_step: "Done s \<Longrightarrow> Done (step p a s)"
  by (cases a) (auto simp: p_end_def split: wait_pc.splits option.splits child_state.splits)

lemma Done_run_schedule: "Done s \<Longrightarrow> Done (run_schedule p acts s)"
  by (induction acts arbitrary: s) (simp_all add: Done_step)

lemma await_Done_StillBlocked:
  "\<not> Done (run_schedule p acts s) \<Longrightarrow> await_Done p acts s = StillBlocked (run_schedule p acts s)"
proof (induction acts arbitrary: s)
  case Nil
  then show ?case by simp
next
  case (Cons a as)
  then have "\<not> Done s" using Done_run_schedule by blast
  with Cons show ?case by simp
qed

lemma await_Done_returns:
  "Done (run_schedule p acts s) \<Longrightarrow> \<exists>s' rest. await_Done p (acts @ later) s = Unblocked s' rest"
proof (induction acts arbitrary: s)
  case Nil
  then show ?case by (cases later) simp_all
next
  case (Cons a as)
  then show ?case by (cases "Done s") simp_all
qed

lemma await_Done_immediate: "Done s \<Longrightarrow> await_Done p acts s = Unblocked s acts"
  by (cases acts) simp_all

lemma os_kill_inv: "life_inv p s \<Longrightarrow> life_inv p (os_kill s)"
  by (auto simp: life_inv_def os_kill_def split: wait_pc.splits)

lemma os_kill_Done: "life_inv p s \<Longrightarrow> Done s \<Longrightarrow> os_kill s = s"
  by (auto simp: life_inv_def os_kill_def split: wait_pc.splits)

lemma os_kill_not_Running: "child (os_kill s) \<noteq> Running"
  by (simp add: os_kill_def)

lemma Kill_facts:
  assumes w: "wired p" and i: "life_inv p s"
  shows "Kill (Some p) acts s = await_Done p acts (os_kill s)"
    and "Kill (Some p) acts s = Unblocked s' rest \<Longrightarrow>
      Done s' \<and> life_inv p s' \<and> (\<exists>pre. acts = pre @ rest \<and> s' = run_schedule p pre (os_kill s))"
proof -
  show k: "Kill (Some p) acts s = await_Done p acts (os_kill s)"
    using w by (simp add: wired_def split: option.splits)
  assume "Kill (Some p) acts s = Unblocked s' rest"
  with k have "await_Done p acts (os_kill s) = Unblocked s' rest" by simp
  from await_Done_Unblocked [OF this]
  obtain pre where d: "Done s'" and a: "acts = pre @ rest"
    and r: "s' = run_schedule p pre (os_kill s)" by blast
  have "life_inv p s'"
    unfolding r using w i by (intro run_schedule_inv os_kill_inv)
  with d a r show "Done s' \<and> life_inv p s' \<and>
    (\<exists>pre. acts = pre @ rest \<and> s' = run_schedule p pre (os_kill s))" by blast
qed

text \<open>
  Claim C3, as amended. With an empty \<open>args\<close>, \<^verbatim>\<open>start\<close> returns the error
  \<^verbatim>\<open>No arguments found\<close> at once, without a child and without a message; \<^verbatim>\<open>StartProcess\<close>
  then returns no handle, having sent one \<^verbatim>\<open>end\<close> message with that text as its body and
  closed \<^verbatim>\<open>out\<close>.
\<close>

theorem StartProcess_no_arguments:
  "start os p dir [] s = (Some ''No arguments found'', p, s) \<and>
   StartProcess os dir [] u =
     (None,
      \<lparr>out = [\<lparr>Id_msg = intstring u, Kind = ''end'', Body = ''No arguments found''\<rparr>],
        out_closed = True, spawned = [], child = NoChild, waiter = W_None, Done = False\<rparr>,
      int64_wrap (u + 1))"
  by (simp add: StartProcess_def uniq_recv_def start_def init_life_def p_end_def)

text \<open>
  Claim C3, as stated, fails: a call with an empty \<open>args\<close> does send a message on
  \<^verbatim>\<open>out\<close>.
\<close>

theorem StartProcess_no_arguments_counterexample:
  "out (fst (snd (StartProcess (\<lambda>c. None) None [] 0))) \<noteq> []"
  by (simp add: StartProcess_def uniq_recv_def start_def init_life_def p_end_def)

text \<open>
  Claim C4. When the operating system fails to start the command, with the description
  \<open>e\<close>, \<^verbatim>\<open>StartProcess\<close> sends exactly one message, the \<^verbatim>\<open>end\<close> message with the body
  \<open>e\<close>, closes \<^verbatim>\<open>out\<close> and returns no handle; no child is started. The body is non-empty as
  the description of the failure is.
\<close>

theorem StartProcess_spawn_failure:
  assumes "os (cmd \<lparr>id_proc = intstring u, run = None\<rparr> dir name arg) = Some e" and "e \<noteq> []"
  shows "StartProcess os dir (name # arg) u =
     (None,
      \<lparr>out = [\<lparr>Id_msg = intstring u, Kind = ''end'', Body = e\<rparr>],
        out_closed = True, spawned = [], child = NoChild, waiter = W_None, Done = False\<rparr>,
      int64_wrap (u + 1)) \<and>
    Body (last (out (fst (snd (StartProcess os dir (name # arg) u))))) \<noteq> []"
  using assms
  by (simp add: StartProcess_def uniq_recv_def start_def init_life_def p_end_def Let_def)

theorem StartProcess_spawn_failure_witness:
  "StartProcess (\<lambda>c. Some ''fork/exec ./does-not-exist: no such file or directory'') None
     [''./does-not-exist''] 0 =
     (None,
      \<lparr>out = [\<lparr>Id_msg = intstring 0, Kind = ''end'',
          Body = ''fork/exec ./does-not-exist: no such file or directory''\<rparr>],
        out_closed = True, spawned = [], child = NoChild, waiter = W_None, Done = False\<rparr>,
      1)"
  using StartProcess_spawn_failure
    [of "\<lambda>c. Some ''fork/exec ./does-not-exist: no such file or directory''" 0 None
      "''./does-not-exist''" "[]" "''fork/exec ./does-not-exist: no such file or directory''"]
  by (simp add: int64_wrap_def)



text \<open>
  Claim C5. \<^verbatim>\<open>Kill\<close> on a nil handle returns at once and changes nothing. On the handle of
  a started process, called in any state \<open>s\<close> the process can reach: it asks the operating
  system to end the child and then waits for \<^verbatim>\<open>Done\<close>; it stays blocked as long as the
  schedule leaves \<^verbatim>\<open>Done\<close> open; when it returns, \<^verbatim>\<open>Done\<close> is closed, the child has exited,
  \<^verbatim>\<open>wait\<close> has finished and the \<^verbatim>\<open>end\<close> message is the last message on \<^verbatim>\<open>out\<close>, and a
  second \<^verbatim>\<open>Kill\<close> returns at once in the same state; it does return once the child exits
  and \<^verbatim>\<open>wait\<close> takes its three steps; and on a process whose \<^verbatim>\<open>Done\<close> is closed already it
  returns at once and changes nothing.
\<close>

theorem Kill_blocks_until_Done:
  assumes "StartProcess os dir args u = (Some p, s0, u')"
    and "s = run_schedule p before s0"
  shows "Kill None acts x = Unblocked x acts \<and>
    child (os_kill s) \<noteq> Running \<and>
    Kill (Some p) acts s = await_Done p acts (os_kill s) \<and>
    (\<not> Done (run_schedule p acts (os_kill s)) \<longrightarrow>
      Kill (Some p) acts s = StillBlocked (run_schedule p acts (os_kill s))) \<and>
    (\<forall>s' rest. Kill (Some p) acts s = Unblocked s' rest \<longrightarrow>
      Done s' \<and> is_exited (child s') \<and> waiter s' = W_Finished \<and>
      out s' \<noteq> [] \<and> Kind (last (out s')) = ''end'' \<and>
      Kill (Some p) rest s' = Unblocked s' rest) \<and>
    (\<exists>s' rest. Kill (Some p) ([ChildExit e, WaitReturns, WaitEnd, WaitClose] @ acts) s =
      Unblocked s' rest) \<and>
    (Done s \<longrightarrow> Kill (Some p) acts s = Unblocked s acts)"
proof -
  have w: "wired p" and i0: "life_inv p s0"
    using StartProcess_handle [OF assms(1)] by simp_all
  have i: "life_inv p s"
    unfolding assms(2) using w i0 by (rule run_schedule_inv)
  have 1: "Kill None acts x = Unblocked x acts" by simp
  have 2: "child (os_kill s) \<noteq> Running" by (rule os_kill_not_Running)
  have k: "Kill (Some p) acts s = await_Done p acts (os_kill s)"
    by (rule Kill_facts(1) [OF w i])
  have 3: "\<not> Done (run_schedule p acts (os_kill s)) \<longrightarrow>
      Kill (Some p) acts s = StillBlocked (run_schedule p acts (os_kill s))"
    unfolding k by (simp add: await_Done_StillBlocked)
  have 4: "\<forall>s' rest. Kill (Some p) acts s = Unblocked s' rest \<longrightarrow>
      Done s' \<and> is_exited (child s') \<and> waiter s' = W_Finished \<and>
      out s' \<noteq> [] \<and> Kind (last (out s')) = ''end'' \<and>
      Kill (Some p) rest s' = Unblocked s' rest"
  proof (intro allI impI)
    fix s' rest
    assume "Kill (Some p) acts s = Unblocked s' rest"
    from Kill_facts(2) [OF w i this] have d: "Done s'" and i': "life_inv p s'" by blast+
    have "Kill (Some p) rest s' = Unblocked s' rest"
      using Kill_facts(1) [OF w i'] os_kill_Done [OF i' d] await_Done_immediate [OF d]
      by (simp del: Kill.simps)
    moreover have "out s' \<noteq> [] \<and> Kind (last (out s')) = ''end''"
      using i' d by (auto simp: life_inv_def ended_def split: wait_pc.splits)
    ultimately show "Done s' \<and> is_exited (child s') \<and> waiter s' = W_Finished \<and>
      out s' \<noteq> [] \<and> Kind (last (out s')) = ''end'' \<and>
      Kill (Some p) rest s' = Unblocked s' rest"
      using d life_inv_trace(5) [OF i' d] by (simp del: Kill.simps)
  qed
  have 5: "\<exists>s' rest. Kill (Some p) ([ChildExit e, WaitReturns, WaitEnd, WaitClose] @ acts) s =
      Unblocked s' rest"
    unfolding Kill_facts(1) [OF w i]
    by (intro await_Done_returns finish_schedule os_kill_inv i)
  have 6: "Done s \<longrightarrow> Kill (Some p) acts s = Unblocked s acts"
    unfolding k using os_kill_Done [OF i] await_Done_immediate by simp
  from 1 2 k 3 4 5 6 show ?thesis by blast
qed

theorem Kill_blocks_until_Done_witness:
  "StartProcess (\<lambda>c. None) None [''ls''] 0 =
     (Some \<lparr>id_proc = intstring 0,
        run = Some \<lparr>Path = ''ls'', Args = [''ls''], Dir = [],
          Stdout = \<lparr>id_mw = intstring 0, kind = ''stdout''\<rparr>,
          Stderr = \<lparr>id_mw = intstring 0, kind = ''stderr''\<rparr>\<rparr>\<rparr>,
      \<lparr>out = [], out_closed = False,
        spawned = [\<lparr>Path = ''ls'', Args = [''ls''], Dir = [],
          Stdout = \<lparr>id_mw = intstring 0, kind = ''stdout''\<rparr>,
          Stderr = \<lparr>id_mw = intstring 0, kind = ''stderr''\<rparr>\<rparr>],
        child = Running, waiter = W_Waiting, Done = False\<rparr>,
      1) \<and>
   Kill
     (Some \<lparr>id_proc = intstring 0,
        run = Some \<lparr>Path = ''ls'', Args = [''ls''], Dir = [],
          Stdout = \<lparr>id_mw = intstring 0, kind = ''stdout''\<rparr>,
          Stderr = \<lparr>id_mw = intstring 0, kind = ''stderr''\<rparr>\<rparr>\<rparr>)
     [WriteStdout ''bye'', ChildExit (Some ''signal: killed''), WaitReturns, WaitEnd, WaitClose,
      WriteStdout ''late'']
     (run_schedule
        \<lparr>id_proc = intstring 0,
          run = Some \<lparr>Path = ''ls'', Args = [''ls''], Dir = [],
            Stdout = \<lparr>id_mw = intstring 0, kind = ''stdout''\<rparr>,
            Stderr = \<lparr>id_mw = intstring 0, kind = ''stderr''\<rparr>\<rparr>\<rparr>
        [WriteStdout ''hi'']
        \<lparr>out = [], out_closed = False,
          spawned = [\<lparr>Path = ''ls'', Args = [''ls''], Dir = [],
            Stdout = \<lparr>id_mw = intstring 0, kind = ''stdout''\<rparr>,
            Stderr = \<lparr>id_mw = intstring 0, kind = ''stderr''\<rparr>\<rparr>],
          child = Running, waiter = W_Waiting, Done = False\<rparr>) =
     Unblocked
       \<lparr>out = [\<lparr>Id_msg = intstring 0, Kind = ''stdout'', Body = ''hi''\<rparr>,
           \<lparr>Id_msg = intstring 0, Kind = ''stdout'', Body = ''bye''\<rparr>,
           \<lparr>Id_msg = intstring 0, Kind = ''end'', Body = ''signal: killed''\<rparr>],
          out_closed = False,
          spawned = [\<lparr>Path = ''ls'', Args = [''ls''], Dir = [],
            Stdout = \<lparr>id_mw = intstring 0, kind = ''stdout''\<rparr>,
            Stderr = \<lparr>id_mw = intstring 0, kind = ''stderr''\<rparr>\<rparr>],
          child = Exited (Some ''signal: killed''), waiter = W_Finished, Done = True\<rparr>
       [WriteStdout ''late'']"
proof -
  have s: "StartProcess (\<lambda>c. None) None [''ls''] 0 =
     (Some \<lparr>id_proc = intstring 0,
        run = Some \<lparr>Path = ''ls'', Args = [''ls''], Dir = [],
          Stdout = \<lparr>id_mw = intstring 0, kind = ''stdout''\<rparr>,
          Stderr = \<lparr>id_mw = intstring 0, kind = ''stderr''\<rparr>\<rparr>\<rparr>,
      \<lparr>out = [], out_closed = False,
        spawned = [\<lparr>Path = ''ls'', Args = [''ls''], Dir = [],
          Stdout = \<lparr>id_mw = intstring 0, kind = ''stdout''\<rparr>,
          Stderr = \<lparr>id_mw = intstring 0, kind = ''stderr''\<rparr>\<rparr>],
        child = Running, waiter = W_Waiting, Done = False\<rparr>,
      1)"
    by (simp add: StartProcess_def uniq_recv_def start_def init_life_def cmd_def int64_wrap_def
        Let_def)
  show ?thesis
    using Kill_blocks_until_Done [OF s refl,
        of "[WriteStdout ''bye'', ChildExit (Some ''signal: killed''), WaitReturns, WaitEnd,
          WaitClose, WriteStdout ''late'']" undefined "[WriteStdout ''hi'']" None]
    by (simp add: s Write_def p_end_def os_kill_def)
qed

end
